theory Spec2Isabelle
  imports Complex_Main "HOL-Library.Multiset" "HOL-Library.Sublist"
begin

section \<open>Python values used by \<open>coverage.py\<close>\<close>

text \<open>
  Exceptions are values: a function that can raise returns \<open>py_error + 'a\<close>, with
  \<open>Inl\<close> for the exception that leaves the function.
\<close>

datatype py_error =
    ZeroDivisionError
  | OverflowError
  | ValueError
  | IndexError
  | AttributeError

subsection \<open>Floats\<close>

text \<open>
  \<open>covered_count = int((coverage_percentage / 100) * total_endpoints)\<close> is computed in
  binary64. A finite double is a pair of integers, \<open>Finite m e\<close> standing for the exact
  value \<open>m * 2 ^ e\<close>; the representation is not normalised, and the two zeros are not
  told apart (\<open>int\<close> maps both to \<open>0\<close>). \<open>Infinity\<close> stands for either infinity:
  \<open>int\<close> raises on both.
\<close>

datatype double = Finite int int | Infinity | NaN

text \<open>Python's \<open>int.bit_length\<close>, for a positive int (\<open>0\<close> otherwise).\<close>

function bit_length :: "int \<Rightarrow> int" where
  "bit_length n = (if n \<le> 0 then 0 else 1 + bit_length (n div 2))"
  by pat_completeness auto
termination
  by (relation "measure nat") auto

declare bit_length.simps [simp del]

text \<open>The integer nearest to \<open>a / b\<close>, a tie going to the even one (\<open>0 \<le> a\<close>, \<open>0 < b\<close>).\<close>

definition div_half_even :: "int \<Rightarrow> int \<Rightarrow> int" where
  "div_half_even a b =
     (let q = a div b; r = a mod b
      in if 2 * r < b \<or> (2 * r = b \<and> even q) then q else q + 1)"

text \<open>
  The exponent \<open>ex\<close> with \<open>2 ^ ex \<le> a / b < 2 ^ (ex + 1)\<close>, for positive \<open>a\<close> and \<open>b\<close>.
\<close>

definition floor_log2 :: "int \<Rightarrow> int \<Rightarrow> int" where
  "floor_log2 a b =
     (let d = bit_length a - bit_length b
      in if a * 2 ^ nat (- d) < b * 2 ^ nat d then d - 1 else d)"

text \<open>
  Round-to-nearest, ties-to-even, of the positive rational \<open>a / b\<close> to binary64: 53
  significant bits, the exponent of the last place no smaller than \<open>-1074\<close> (subnormals),
  and infinity once the rounded value reaches \<open>2 ^ 1024\<close>.
\<close>

definition round_nearest :: "int \<Rightarrow> int \<Rightarrow> double" where
  "round_nearest a b =
     (let s = max (floor_log2 a b - 52) (- 1074);
          m = div_half_even (a * 2 ^ nat (- s)) (b * 2 ^ nat s)
      in if 971 < s \<or> (s = 971 \<and> 2 ^ 53 \<le> m) then Infinity else Finite m s)"

text \<open>
  \<open>a / b\<close> on two Python ints: the correctly rounded quotient; it raises where the
  divisor is zero or the quotient is too large for a float.
\<close>

definition py_truediv :: "int \<Rightarrow> int \<Rightarrow> py_error + double" where
  "py_truediv a b =
     (if b = 0 then Inl ZeroDivisionError
      else if a = 0 then Inr (Finite 0 0)
      else (case round_nearest \<bar>a\<bar> \<bar>b\<bar> of
              Finite m e \<Rightarrow> Inr (Finite (sgn a * sgn b * m) e)
            | _ \<Rightarrow> Inl OverflowError))"

text \<open>
  The conversion of an int operand of a float operation: correctly rounded, raising
  where the int is too large.
\<close>

definition float_of_int :: "int \<Rightarrow> py_error + double" where
  "float_of_int n =
     (if n = 0 then Inr (Finite 0 0)
      else (case round_nearest \<bar>n\<bar> 1 of
              Finite m e \<Rightarrow> Inr (Finite (sgn n * m) e)
            | _ \<Rightarrow> Inl OverflowError))"

text \<open>
  The product of two doubles: the exact product, rounded once. An infinity times zero
  is NaN.
\<close>

fun float_mul :: "double \<Rightarrow> double \<Rightarrow> double" where
  "float_mul (Finite m1 e1) (Finite m2 e2) =
     (let m = m1 * m2; e = e1 + e2
      in if m = 0 then Finite 0 0
         else (case round_nearest (\<bar>m\<bar> * 2 ^ nat e) (2 ^ nat (- e)) of
                 Finite m' e' \<Rightarrow> Finite (sgn m * m') e'
               | x \<Rightarrow> x))"
| "float_mul NaN _ = NaN"
| "float_mul _ NaN = NaN"
| "float_mul Infinity (Finite m e) = (if m = 0 then NaN else Infinity)"
| "float_mul (Finite m e) Infinity = (if m = 0 then NaN else Infinity)"
| "float_mul Infinity Infinity = Infinity"

text \<open>\<open>int(x)\<close> on a float: truncation towards zero; it raises on infinities and NaN.\<close>

fun int_of_float :: "double \<Rightarrow> py_error + int" where
  "int_of_float (Finite m e) =
     Inr (if 0 \<le> e then m * 2 ^ nat e else sgn m * (\<bar>m\<bar> div 2 ^ nat (- e)))"
| "int_of_float Infinity = Inl OverflowError"
| "int_of_float NaN = Inl ValueError"

subsection \<open>List slices\<close>

text \<open>
  The index a slice bound \<open>k\<close> denotes in a list of length \<open>n\<close>: a negative bound counts
  from the end, and a bound outside the list is clipped to it.
\<close>

definition slice_index :: "nat \<Rightarrow> int \<Rightarrow> nat" where
  "slice_index n k = (if k < 0 then nat (max 0 (int n + k)) else min (nat k) n)"

definition slice_to :: "'a list \<Rightarrow> int \<Rightarrow> 'a list" where
  \<comment> \<open>\<open>xs[:k]\<close>\<close>
  "slice_to xs k = take (slice_index (length xs) k) xs"

definition slice_from :: "'a list \<Rightarrow> int \<Rightarrow> 'a list" where
  \<comment> \<open>\<open>xs[k:]\<close>\<close>
  "slice_from xs k = drop (slice_index (length xs) k) xs"

subsection \<open>The module \<open>random\<close>\<close>

text \<open>
  \<open>random.seed\<close> and \<open>random.shuffle\<close> act on one hidden generator. The generator is a
  parameter of the model: a type \<open>'g\<close> of generator states, the state \<open>seed a\<close> that
  \<open>random.seed(a)\<close> leaves behind, and \<open>randbelow g n\<close>, the number the generator in state
  \<open>g\<close> draws for \<open>_randbelow(n)\<close>, with the state it moves to. The library promises
  \<open>0 \<le> _randbelow(n) < n\<close> for positive \<open>n\<close>.
\<close>

record 'g random =
  seed :: "int \<Rightarrow> 'g"
  randbelow :: "'g \<Rightarrow> nat \<Rightarrow> nat \<times> 'g"

definition randbelow_in_range :: "'g random \<Rightarrow> bool" where
  "randbelow_in_range R = (\<forall>g n. 0 < n \<longrightarrow> fst (randbelow R g n) < n)"

text \<open>
  \<open>random.shuffle(x)\<close> is the library's loop
  \<^verbatim>\<open>
  for i in reversed(range(1, len(x))):
      j = randbelow(i + 1)
      x[i], x[j] = x[j], x[i]
  \<close>
  \<open>shuffle_from R i x g\<close> runs it from index \<open>i\<close> down to \<open>1\<close>. An index outside the list
  raises \<open>IndexError\<close>.
\<close>

fun shuffle_from :: "'g random \<Rightarrow> nat \<Rightarrow> 'a list \<Rightarrow> 'g \<Rightarrow> py_error + ('a list \<times> 'g)" where
  "shuffle_from R 0 x g = Inr (x, g)"
| "shuffle_from R (Suc i) x g =
     (case randbelow R g (Suc i + 1) of
        (j, g') \<Rightarrow>
          if j < length x \<and> Suc i < length x
          then shuffle_from R i (x[Suc i := x ! j, j := x ! Suc i]) g'
          else Inl IndexError)"

definition shuffle :: "'g random \<Rightarrow> 'a list \<Rightarrow> 'g \<Rightarrow> py_error + ('a list \<times> 'g)" where
  "shuffle R x g = shuffle_from R (length x - 1) x g"

section \<open>The Coverage Partitioner\<close>

record 'a coverage_data =
  coverage_percentage :: int
  total_endpoints :: nat
  covered_endpoints :: "'a list"
  uncovered_endpoints :: "'a list"
  timestamp :: string

definition covered_count :: "int \<Rightarrow> nat \<Rightarrow> py_error + int" where
  \<comment> \<open>\<open>int((coverage_percentage / 100) * total_endpoints)\<close>\<close>
  "covered_count percentage n =
     (case py_truediv percentage 100 of
        Inl err \<Rightarrow> Inl err
      | Inr ratio \<Rightarrow>
          (case float_of_int (int n) of
             Inl err \<Rightarrow> Inl err
           | Inr t \<Rightarrow> int_of_float (float_mul ratio t)))"

text \<open>
  \<open>calculate_coverage R utcnow endpoints percentage g\<close>: \<open>g\<close> is the state of the hidden
  generator when the function is called and \<open>utcnow\<close> is what
  \<open>datetime.utcnow().isoformat()\<close> returns during the call. The result is the returned
  dict with the generator's new state, or the exception raised.
\<close>

definition calculate_coverage ::
  "'g random \<Rightarrow> string \<Rightarrow> 'a list \<Rightarrow> int \<Rightarrow> 'g \<Rightarrow> py_error + ('a coverage_data \<times> 'g)" where
  "calculate_coverage R utcnow endpoints percentage g =
     (case covered_count percentage (length endpoints) of
        Inl err \<Rightarrow> Inl err
      | Inr k \<Rightarrow>
          (case shuffle R endpoints (seed R 42) of
             Inl err \<Rightarrow> Inl err
           | Inr (shuffled_endpoints, g') \<Rightarrow>
               Inr (\<lparr>coverage_percentage = percentage,
                     total_endpoints = length endpoints,
                     covered_endpoints = slice_to shuffled_endpoints k,
                     uncovered_endpoints = slice_from shuffled_endpoints k,
                     timestamp = utcnow @ ''Z''\<rparr>, g')))"

section \<open>Strings and printing\<close>

text \<open>
  A \<open>str\<close> is a \<open>string\<close>. The three message prefixes of the source that are not
  ASCII are written as the bytes the source file holds for them.
\<close>

definition digit_char :: "int \<Rightarrow> char" where
  "digit_char d = ''0123456789'' ! nat d"

text \<open>The decimal digits of a non-negative int, and \<open>str\<close> of an int.\<close>

function digits :: "int \<Rightarrow> string" where
  "digits n = (if n < 10 then [digit_char n] else digits (n div 10) @ [digit_char (n mod 10)])"
  by pat_completeness auto
termination
  by (relation "measure nat") auto

declare digits.simps [simp del]

definition str_int :: "int \<Rightarrow> string" where
  "str_int i = (if i < 0 then ''-'' @ digits (- i) else digits i)"

definition newline :: char where
  "newline = CHR 0x0A"

text \<open>\<open>'\n'.join(lines)\<close>\<close>

fun join_lines :: "string list \<Rightarrow> string" where
  "join_lines [] = []"
| "join_lines [l] = l"
| "join_lines (l # ls) = l @ newline # join_lines ls"

text \<open>\<open>os.path.join(a, b)\<close> on a POSIX system.\<close>

definition path_join :: "string \<Rightarrow> string \<Rightarrow> string" where
  "path_join a b =
     (if b \<noteq> [] \<and> hd b = CHR ''/'' then b
      else if a = [] \<or> last a = CHR ''/'' then a @ b
      else a @ ''/'' @ b)"

section \<open>The world the program runs in\<close>

text \<open>
  What \<open>yaml.safe_load\<close> returns. The keys of a mapping are modelled as strings, as the
  path keys of an OpenAPI document are; a dict is an association list in insertion order.
\<close>

datatype yaml =
    YNone
  | YBool bool
  | YInt int
  | YStr string
  | YList "yaml list"
  | YDict "(string \<times> yaml) list"

text \<open>
  What a written file holds: text, or the document \<open>json.dump(coverage_data, f, indent=4)\<close>
  writes (the serialisation is the library's and is not expanded).
\<close>

datatype content = Text string | JsonDump "string coverage_data" nat

text \<open>
  \<open>files w p\<close> is \<open>None\<close> where \<open>os.path.isfile(p)\<close> is false; otherwise it holds what
  \<open>yaml.safe_load\<close> makes of the file: \<open>Inl msg\<close> for a \<open>YAMLError\<close> whose text is
  \<open>msg\<close>, \<open>Inr doc\<close> for the parsed document. \<open>made_dirs\<close>, \<open>written\<close> and \<open>stdout\<close> log
  the directories made, the files written and the lines printed, oldest first. Failures
  of the operating system while opening the input, making the directory or writing a
  file are not modelled.
\<close>

record world =
  cwd :: string
  files :: "string \<Rightarrow> (string + yaml) option"
  made_dirs :: "string list"
  written :: "(string \<times> content) list"
  stdout :: "string list"

definition print :: "string \<Rightarrow> world \<Rightarrow> world" where
  "print line w = w\<lparr>stdout := stdout w @ [line]\<rparr>"

definition makedirs :: "string \<Rightarrow> world \<Rightarrow> world" where
  "makedirs d w = w\<lparr>made_dirs := made_dirs w @ [d]\<rparr>"

definition write_file :: "string \<Rightarrow> content \<Rightarrow> world \<Rightarrow> world" where
  "write_file p c w = w\<lparr>written := written w @ [(p, c)]\<rparr>"

section \<open>The Spec Loader\<close>

text \<open>\<open>d.get(key, default)\<close>: only a dict has the method.\<close>

fun dict_get :: "yaml \<Rightarrow> string \<Rightarrow> yaml \<Rightarrow> py_error + yaml" where
  "dict_get (YDict kvs) key dflt =
     Inr (case map_of kvs key of Some v \<Rightarrow> v | None \<Rightarrow> dflt)"
| "dict_get _ key dflt = Inl AttributeError"

text \<open>\<open>d.keys()\<close>: only a dict has the method.\<close>

fun dict_keys :: "yaml \<Rightarrow> py_error + string list" where
  "dict_keys (YDict kvs) = Inr (map fst kvs)"
| "dict_keys _ = Inl AttributeError"

definition parse_openapi_yaml :: "string \<Rightarrow> world \<Rightarrow> py_error + (string list \<times> world)" where
  "parse_openapi_yaml yaml_file_path w =
     (case files w yaml_file_path of
        None \<Rightarrow> Inr ([], print (''YAML file not found at path: '' @ yaml_file_path) w)
      | Some (Inl exc) \<Rightarrow> Inr ([], print (''Error parsing YAML file: '' @ exc) w)
      | Some (Inr openapi_spec) \<Rightarrow>
          (case dict_get openapi_spec ''paths'' (YDict []) of
             Inl err \<Rightarrow> Inl err
           | Inr paths \<Rightarrow>
               (case dict_keys paths of
                  Inl err \<Rightarrow> Inl err
                | Inr endpoints \<Rightarrow> Inr (endpoints, w))))"

section \<open>The Report Emitters\<close>

definition mark_ok :: string where
  "mark_ok = [CHR 0xE2, CHR 0x80, CHR 0x9A, CHR 0xC3, CHR 0xBA, CHR 0xC3, CHR 0x96]"

definition mark_fail :: string where
  "mark_fail = [CHR 0xE2, CHR 0x80, CHR 0x9A, CHR 0xC3, CHR 0xB9, CHR 0xC3, CHR 0xA5]"

definition mark_done :: string where
  "mark_done = [CHR 0xEF, CHR 0xA3, CHR 0xBF, CHR 0xC3, CHR 0xBC, CHR 0xC3, CHR 0xA9,
                CHR 0xC3, CHR 0xA2]"

definition generate_mock_coverage_json :: "string coverage_data \<Rightarrow> string \<Rightarrow> world \<Rightarrow> world" where
  "generate_mock_coverage_json coverage_data output_dir w =
     (let output_file = path_join output_dir ''restler_coverage.json''
      in print (mark_ok @ '' Mock JSON coverage report generated at: '' @ output_file)
           (write_file output_file (JsonDump coverage_data 4) (makedirs output_dir w)))"

definition covered_items :: "string list \<Rightarrow> string" where
  \<open>covered_items eps = concat (map (\<lambda>ep. ''<li class="covered">'' @ ep @ ''</li>'') eps)\<close>

definition uncovered_items :: "string list \<Rightarrow> string" where
  \<open>uncovered_items eps = concat (map (\<lambda>ep. ''<li class="uncovered">'' @ ep @ ''</li>'') eps)\<close>

definition html_content :: "string coverage_data \<Rightarrow> string" where
  \<open>html_content coverage_data = join_lines
     ['''',
      ''    <!DOCTYPE html>'',
      ''    <html>'',
      ''    <head>'',
      ''        <title>RESTler Coverage Report</title>'',
      ''        <style>'',
      ''            body {'',
      ''                font-family: Arial, sans-serif;'',
      ''                margin: 40px;'',
      ''                background-color: #f4f4f4;'',
      ''            }'',
      ''            .coverage-summary {'',
      ''                width: 90%;'',
      ''                margin: auto;'',
      ''                background: #fff;'',
      ''                padding: 20px;'',
      ''                border-radius: 8px;'',
      ''                box-shadow: 0 0 10px rgba(0,0,0,0.1);'',
      ''            }'',
      ''            .coverage-bar {'',
      ''                width: 100%;'',
      ''                background-color: #ddd;'',
      ''                border-radius: 25px;'',
      ''                overflow: hidden;'',
      ''                margin: 20px 0;'',
      ''            }'',
      ''            .coverage-bar-fill {'',
      ''                height: 30px;'',
      ''                width: '' @ str_int (coverage_percentage coverage_data) @ ''%;'',
      ''                background-color: #4CAF50;'',
      ''                text-align: center;'',
      ''                line-height: 30px;'',
      ''                color: white;'',
      ''                border-radius: 25px 0 0 25px;'',
      ''                transition: width 0.5s;'',
      ''            }'',
      ''            .details {'',
      ''                text-align: left;'',
      ''                margin-top: 20px;'',
      ''            }'',
      ''            .endpoint-list {'',
      ''                max-height: 300px;'',
      ''                overflow-y: scroll;'',
      ''                border: 1px solid #ccc;'',
      ''                padding: 10px;'',
      ''                border-radius: 5px;'',
      ''                background-color: #f9f9f9;'',
      ''            }'',
      ''            .covered {'',
      ''                color: green;'',
      ''            }'',
      ''            .uncovered {'',
      ''                color: red;'',
      ''            }'',
      ''            .timestamp {'',
      ''                margin-top: 20px;'',
      ''                font-size: 0.9em;'',
      ''                color: #555;'',
      ''            }'',
      ''            h1, h2 {'',
      ''                text-align: center;'',
      ''            }'',
      ''        </style>'',
      ''    </head>'',
      ''    <body>'',
      ''        <div class="coverage-summary">'',
      ''            <h1>RESTler Coverage Report</h1>'',
      ''            <p><strong>Coverage Percentage:</strong> '' @ str_int (coverage_percentage coverage_data) @ ''%</p>'',
      ''            <div class="coverage-bar">'',
      ''                <div class="coverage-bar-fill">'' @ str_int (coverage_percentage coverage_data) @ ''%</div>'',
      ''            </div>'',
      ''            <div class="details">'',
      ''                <p><strong>Total Endpoints:</strong> '' @ str_int (int (total_endpoints coverage_data)) @ ''</p>'',
      ''                <h2>Covered Endpoints ('' @ str_int (int (length (covered_endpoints coverage_data))) @ ''):</h2>'',
      ''                <div class="endpoint-list">'',
      ''                    <ul>'',
      ''                        '' @ covered_items (covered_endpoints coverage_data),
      ''                    </ul>'',
      ''                </div>'',
      ''                <h2>Uncovered Endpoints ('' @ str_int (int (length (uncovered_endpoints coverage_data))) @ ''):</h2>'',
      ''                <div class="endpoint-list">'',
      ''                    <ul>'',
      ''                        '' @ uncovered_items (uncovered_endpoints coverage_data),
      ''                    </ul>'',
      ''                </div>'',
      ''            </div>'',
      ''            <div class="timestamp">'',
      ''                Report generated at: '' @ timestamp coverage_data,
      ''            </div>'',
      ''        </div>'',
      ''    </body>'',
      ''    </html>'',
      ''    '']\<close>

definition generate_mock_coverage_html :: "string coverage_data \<Rightarrow> string \<Rightarrow> world \<Rightarrow> world" where
  "generate_mock_coverage_html coverage_data output_dir w =
     (let output_file = path_join output_dir ''restler_coverage.html''
      in print (mark_ok @ '' Mock HTML coverage report generated at: '' @ output_file)
           (write_file output_file (Text (html_content coverage_data)) w))"

section \<open>The Driver\<close>

text \<open>
  \<open>main R utcnow g w\<close>: the run from the world \<open>w\<close>, with the hidden generator in state
  \<open>g\<close>. \<open>Inr\<close> is a run that returns from \<open>main\<close>, with the world and generator it
  leaves; \<open>Inl\<close> is a run that an exception ends.
\<close>

definition main :: "'g random \<Rightarrow> string \<Rightarrow> 'g \<Rightarrow> world \<Rightarrow> py_error + (world \<times> 'g)" where
  "main R utcnow g w =
     (let project_root = cwd w;
          yaml_file_name = ''api_spec.yaml'';
          yaml_file_path = path_join project_root yaml_file_name;
          output_dir = path_join project_root ''coverage_reports''
      in case parse_openapi_yaml yaml_file_path w of
           Inl err \<Rightarrow> Inl err
         | Inr (endpoints, w1) \<Rightarrow>
             if endpoints = []
             then Inr (print (mark_fail @ '' No endpoints found or failed to parse YAML. Exiting.'') w1, g)
             else (case calculate_coverage R utcnow endpoints 71 g of
                     Inl err \<Rightarrow> Inl err
                   | Inr (coverage_data, g') \<Rightarrow>
                       Inr (print (newline # mark_done @
                                   '' Mock coverage reports generation completed successfully!'')
                              (generate_mock_coverage_html coverage_data output_dir
                                 (generate_mock_coverage_json coverage_data output_dir w1)), g')))"

text \<open>The path of the input file as \<open>main\<close> computes it, and the notice of an empty run.\<close>

definition yaml_file_path :: "world \<Rightarrow> string" where
  "yaml_file_path w = path_join (cwd w) ''api_spec.yaml''"

definition no_endpoints_notice :: string where
  "no_endpoints_notice = mark_fail @ '' No endpoints found or failed to parse YAML. Exiting.''"

section \<open>Sample inputs\<close>

text \<open>
  A generator for the examples: its state is a counter, and \<open>_randbelow(n)\<close> draws the
  counter modulo \<open>n\<close>.
\<close>

definition sample_random :: "nat random" where
  "sample_random = \<lparr>seed = (\<lambda>a. nat \<bar>a\<bar>), randbelow = (\<lambda>g n. (g mod n, Suc g))\<rparr>"

definition sample_endpoints :: "string list" where
  "sample_endpoints = [''/a'', ''/b'', ''/c'', ''/d'']"

definition hundred_endpoints :: "string list" where
  "hundred_endpoints = map (\<lambda>i. ''/e'' @ str_int i) [0..99]"

text \<open>A project directory without \<open>api_spec.yaml\<close>, and one whose \<open>api_spec.yaml\<close> is empty
  (\<open>yaml.safe_load\<close> returns \<open>None\<close> for it).\<close>

definition missing_file_world :: world where
  "missing_file_world =
     \<lparr>cwd = ''/proj'', files = (\<lambda>p. None), made_dirs = [], written = [], stdout = []\<rparr>"

definition empty_file_world :: world where
  "empty_file_world =
     \<lparr>cwd = ''/proj'',
      files = (\<lambda>p. if p = ''/proj/api_spec.yaml'' then Some (Inr YNone) else None),
      made_dirs = [], written = [], stdout = []\<rparr>"

text \<open>A Coverage Result with an endpoint that holds markup.\<close>

definition markup_report :: "string coverage_data" where
  "markup_report =
     \<lparr>coverage_percentage = 71, total_endpoints = 2,
      covered_endpoints = [''/<b>''], uncovered_endpoints = [''/a''],
      timestamp = ''2024-01-01T00:00:00Z''\<rparr>"

section \<open>The spec's formula for the covered count\<close>

text \<open>
  The spec states the count over exact arithmetic: \<open>floor(total * percentage / 100)\<close>.
\<close>

definition exact_covered_count :: "int \<Rightarrow> nat \<Rightarrow> int" where
  "exact_covered_count percentage n = (int n * percentage) div 100"

section \<open>The spec's escaping of endpoint identifiers\<close>

text \<open>
  The spec asks for the characters with a special meaning in the markup to be escaped
  where an endpoint identifier is inserted. \<open>escape\<close> is that escaping, as HTML defines
  it for text content and attribute values.
\<close>

definition escape_char :: "char \<Rightarrow> string" where
  \<open>escape_char c =
     (if c = CHR ''&'' then ''&amp;''
      else if c = CHR ''<'' then ''&lt;''
      else if c = CHR ''>'' then ''&gt;''
      else if c = CHR 0x22 then ''&quot;''
      else if c = CHR 0x27 then ''&#x27;''
      else [c])\<close>

definition escape :: "string \<Rightarrow> string" where
  "escape s = concat (map escape_char s)"

section \<open>Properties of the float operations\<close>

lemma bit_length_nonneg: "0 \<le> bit_length n"
  by (induction n rule: bit_length.induct) (subst bit_length.simps, auto)

lemma bit_length_pos: "0 < n \<Longrightarrow> 1 \<le> bit_length n"
  using bit_length_nonneg [of "n div 2"] by (subst bit_length.simps) simp

lemma bit_length_bounds:
  "0 < n \<Longrightarrow> 2 ^ nat (bit_length n - 1) \<le> n \<and> n < 2 ^ nat (bit_length n)"
proof (induction n rule: bit_length.induct)
  case (1 n)
  show ?case
  proof (cases "n = 1")
    case True
    have "bit_length 1 = 1"
      by (subst bit_length.simps, subst bit_length.simps) simp
    with True show ?thesis by simp
  next
    case False
    with "1.prems" have h: "0 < n div 2" by simp
    with "1.IH" "1.prems" have IH: "2 ^ nat (bit_length (n div 2) - 1) \<le> n div 2"
      "n div 2 < 2 ^ nat (bit_length (n div 2))" by auto
    have bl: "bit_length n = 1 + bit_length (n div 2)"
      using "1.prems" by (subst bit_length.simps) simp
    have p: "1 \<le> bit_length (n div 2)" using h by (rule bit_length_pos)
    then have e1: "nat (bit_length n - 1) = Suc (nat (bit_length (n div 2) - 1))"
      and e2: "nat (bit_length n) = Suc (nat (bit_length (n div 2)))"
      using bl by auto
    from IH show ?thesis unfolding e1 e2 by simp presburger
  qed
qed

lemma bit_length_real:
  assumes "0 < n"
  shows "2 powi (bit_length n - 1) \<le> real_of_int n" "real_of_int n < 2 powi (bit_length n)"
proof -
  from bit_length_bounds [OF assms] have
    a: "(2::int) ^ nat (bit_length n - 1) \<le> n" and b: "n < 2 ^ nat (bit_length n)" by auto
  have p: "1 \<le> bit_length n" using assms by (rule bit_length_pos)
  from a have "real_of_int (2 ^ nat (bit_length n - 1)) \<le> real_of_int n"
    by (simp only: of_int_le_iff)
  then show "2 powi (bit_length n - 1) \<le> real_of_int n"
    using p by (simp add: power_int_nonneg_exp)
  from b have "real_of_int n < real_of_int (2 ^ nat (bit_length n))"
    by (simp only: of_int_less_iff)
  then show "real_of_int n < 2 powi (bit_length n)"
    using p by (simp add: power_int_nonneg_exp)
qed

lemma scaled_quotient:
  assumes "0 < b"
  shows "real_of_int (a * 2 ^ nat (- s)) / real_of_int (b * 2 ^ nat s)
         = (real_of_int a / real_of_int b) * 2 powi (- s)"
proof (cases "0 \<le> s")
  case True
  then show ?thesis
    by (simp add: power_int_minus power_int_nonneg_exp field_simps)
next
  case False
  then have "0 \<le> - s" by simp
  then have "(2::real) powi (- s) = 2 ^ nat (- s)" by (rule power_int_nonneg_exp)
  with False show ?thesis by simp
qed

lemma scaled_less:
  assumes "0 < b"
  shows "a * 2 ^ nat (- s) < b * 2 ^ nat s \<longleftrightarrow> real_of_int a / real_of_int b < 2 powi s"
proof -
  have pos: "0 < real_of_int (b * 2 ^ nat s)" using assms by simp
  have "a * 2 ^ nat (- s) < b * 2 ^ nat s
        \<longleftrightarrow> real_of_int (a * 2 ^ nat (- s)) < real_of_int (b * 2 ^ nat s)"
    by (simp only: of_int_less_iff)
  also have "\<dots> \<longleftrightarrow> real_of_int (a * 2 ^ nat (- s)) / real_of_int (b * 2 ^ nat s) < 1"
    using pos by (simp only: divide_less_eq_1_pos)
  also have "\<dots> \<longleftrightarrow> (real_of_int a / real_of_int b) * 2 powi (- s) < 1"
    by (simp only: scaled_quotient [OF assms])
  also have "\<dots> \<longleftrightarrow> (real_of_int a / real_of_int b) / 2 powi s < 1"
    by (simp only: power_int_minus divide_inverse)
  also have "\<dots> \<longleftrightarrow> real_of_int a / real_of_int b < 1 * 2 powi s"
    by (rule pos_divide_less_eq) simp
  finally show ?thesis by simp
qed

lemma floor_log2_bounds:
  assumes "0 < a" "0 < b"
  shows "2 powi (floor_log2 a b) \<le> real_of_int a / real_of_int b"
    and "real_of_int a / real_of_int b < 2 powi (floor_log2 a b + 1)"
proof -
  define d where "d = bit_length a - bit_length b"
  define x where "x = real_of_int a / real_of_int b"
  have xpos: "0 < x" using assms by (simp add: x_def)
  have bpos: "0 < real_of_int b" using assms by simp
  note A = bit_length_real [OF assms(1)] and B = bit_length_real [OF assms(2)]
  have lo: "2 powi (d - 1) < x"
  proof -
    have "2 powi (d - 1) * real_of_int b < 2 powi (d - 1) * 2 powi (bit_length b)"
      using B(2) by simp
    also have "\<dots> = 2 powi (bit_length a - 1)"
      by (simp add: d_def power_int_add [symmetric])
    also have "\<dots> \<le> real_of_int a" by (rule A(1))
    finally show ?thesis using bpos by (simp add: x_def field_simps)
  qed
  have hi: "x < 2 powi (d + 1)"
  proof -
    have "real_of_int a < 2 powi (bit_length a)" by (rule A(2))
    also have "\<dots> = 2 powi (d + 1) * 2 powi (bit_length b - 1)"
      by (simp add: d_def power_int_add [symmetric])
    also have "\<dots> \<le> 2 powi (d + 1) * real_of_int b"
      using B(1) by simp
    finally show ?thesis using bpos by (simp add: x_def field_simps)
  qed
  have fl: "floor_log2 a b = (if x < 2 powi d then d - 1 else d)"
    unfolding floor_log2_def Let_def d_def [symmetric] scaled_less [OF assms(2)] x_def ..
  show "2 powi (floor_log2 a b) \<le> real_of_int a / real_of_int b"
    using lo unfolding fl x_def [symmetric] by auto
  show "real_of_int a / real_of_int b < 2 powi (floor_log2 a b + 1)"
    using hi unfolding fl x_def [symmetric] by auto
qed

lemma powi2_less_iff: "(2::real) powi m < 2 powi n \<longleftrightarrow> m < n"
proof
  assume l: "(2::real) powi m < 2 powi n"
  show "m < n"
  proof (rule ccontr)
    assume "\<not> m < n"
    then have "n \<le> m" by simp
    then have "(2::real) powi n \<le> 2 powi m" by (rule power_int_increasing) simp
    with l show False by simp
  qed
next
  assume "m < n"
  then show "(2::real) powi m < 2 powi n" by (rule power_int_strict_increasing) simp
qed

lemma powi_window_unique:
  assumes "2 powi j \<le> (x::real)" "x < 2 powi (j + 1)" "2 powi k \<le> x" "x < 2 powi (k + 1)"
  shows "j = k"
proof -
  have "(2::real) powi j < 2 powi (k + 1)" using assms by linarith
  then have 1: "j < k + 1" by (simp only: powi2_less_iff)
  have "(2::real) powi k < 2 powi (j + 1)" using assms by linarith
  then have 2: "k < j + 1" by (simp only: powi2_less_iff)
  from 1 2 show ?thesis by simp
qed

lemma div_half_even_nonneg: "0 \<le> a \<Longrightarrow> 0 < b \<Longrightarrow> 0 \<le> div_half_even a b"
  by (simp add: div_half_even_def Let_def pos_imp_zdiv_nonneg_iff)

lemma div_half_even_exact: "0 < b \<Longrightarrow> div_half_even (n * b) b = n"
  by (simp add: div_half_even_def Let_def)

lemma div_half_even_ge_iff:
  assumes "0 < b" "even N"
  shows "N \<le> div_half_even a b \<longleftrightarrow> (2 * N - 1) * b \<le> 2 * a"
proof -
  define q where "q = a div b"
  define r where "r = a mod b"
  define m where "m = div_half_even a b"
  have a: "a = b * q + r" by (simp add: q_def r_def)
  have r: "0 \<le> r" "r < b" using assms(1) by (simp_all add: r_def)
  have m: "m = (if 2 * r < b \<or> (2 * r = b \<and> even q) then q else q + 1)"
    by (simp add: m_def div_half_even_def Let_def q_def r_def)
  define bN where "bN = b * N"
  define bq where "bq = b * q"
  have mq: "q \<le> m" "m \<le> q + 1" unfolding m by auto
  have goal: "N \<le> m \<longleftrightarrow> 2 * bN - b \<le> 2 * bq + 2 * r"
  proof -
    consider "N \<le> q" | "q = N - 1" | "q \<le> N - 2" by linarith
    then show ?thesis
    proof cases
      case 1
      then have "bN \<le> bq" unfolding bN_def bq_def using assms(1) by (simp add: mult_left_mono)
      with 1 r assms(1) mq show ?thesis by linarith
    next
      case 2
      then have odd: "odd q" using assms(2) by simp
      have "b * q = b * (N - 1)" using 2 by simp
      then have e: "bq = bN - b" unfolding bN_def bq_def by (simp add: right_diff_distrib)
      have "m = (if 2 * r < b then q else q + 1)" unfolding m using odd by simp
      with 2 r e show ?thesis by (simp split: if_splits)
    next
      case 3
      then have "b * (q + 2) \<le> b * N" using assms(1) by (simp add: mult_left_mono)
      then have "bq + 2 * b \<le> bN" unfolding bN_def bq_def by (simp add: algebra_simps)
      with 3 r mq show ?thesis by linarith
    qed
  qed
  have "(2 * N - 1) * b = 2 * (b * N) - b" by (simp add: algebra_simps)
  moreover have "2 * a = 2 * (b * q) + 2 * r" by (simp add: a)
  ultimately show ?thesis using goal unfolding m_def bN_def bq_def by simp
qed

lemma round_nearest_not_NaN: "round_nearest a b \<noteq> NaN"
  by (simp add: round_nearest_def Let_def)

lemma round_nearest_nonneg:
  "round_nearest a b = Finite m e \<Longrightarrow> 0 \<le> a \<Longrightarrow> 0 < b \<Longrightarrow> 0 \<le> m"
  by (auto simp: round_nearest_def Let_def split: if_splits intro!: div_half_even_nonneg)

lemma ratio_le_iff:
  assumes "0 < b"
  shows "real_of_int c \<le> real_of_int a / real_of_int b \<longleftrightarrow> c * b \<le> a"
proof -
  have "real_of_int c \<le> real_of_int a / real_of_int b \<longleftrightarrow> real_of_int c * real_of_int b \<le> real_of_int a"
    using assms by (simp add: pos_le_divide_eq)
  also have "\<dots> \<longleftrightarrow> real_of_int (c * b) \<le> real_of_int a" by simp
  also have "\<dots> \<longleftrightarrow> c * b \<le> a" by (simp only: of_int_le_iff)
  finally show ?thesis .
qed

lemma round_nearest_Infinity_iff:
  assumes "0 < a" "0 < b"
  shows "round_nearest a b = Infinity \<longleftrightarrow> (2 ^ 1024 - 2 ^ 970) * b \<le> a"
proof -
  define ex where "ex = floor_log2 a b"
  define x where "x = real_of_int a / real_of_int b"
  note B = floor_log2_bounds [OF assms, folded ex_def x_def]
  have rhs: "(2 ^ 1024 - 2 ^ 970) * b \<le> a \<longleftrightarrow> real_of_int (2 ^ 1024 - 2 ^ 970) \<le> x"
    unfolding x_def by (rule ratio_le_iff [OF assms(2), symmetric])
  have c1: "real_of_int (2 ^ 1024 - 2 ^ 970) \<le> 2 powi 1024" by simp
  have c2: "(2::real) powi 1023 \<le> real_of_int (2 ^ 1024 - 2 ^ 970)" by simp
  consider "1024 \<le> ex" | "ex = 1023" | "ex \<le> 1022" by linarith
  then show ?thesis
  proof cases
    case 1
    then have "(2::real) powi 1024 \<le> 2 powi ex" by (intro power_int_increasing) simp_all
    with B(1) c1 have "real_of_int (2 ^ 1024 - 2 ^ 970) \<le> x" by linarith
    moreover have "round_nearest a b = Infinity"
      using 1 by (simp add: round_nearest_def Let_def ex_def [symmetric])
    ultimately show ?thesis using rhs by simp
  next
    case 3
    then have "ex + 1 \<le> 1023" by simp
    then have "(2::real) powi (ex + 1) \<le> 2 powi 1023" by (intro power_int_increasing) simp_all
    with B(2) c2 have "\<not> real_of_int (2 ^ 1024 - 2 ^ 970) \<le> x" by linarith
    moreover have "round_nearest a b \<noteq> Infinity"
      using 3 by (simp add: round_nearest_def Let_def ex_def [symmetric] max_def)
    ultimately show ?thesis using rhs by simp
  next
    case 2
    have "round_nearest a b = Infinity \<longleftrightarrow> 2 ^ 53 \<le> div_half_even a (b * 2 ^ 971)"
      using 2 by (simp add: round_nearest_def Let_def ex_def [symmetric])
    also have "\<dots> \<longleftrightarrow> (2 * 2 ^ 53 - 1) * (b * 2 ^ 971) \<le> 2 * a"
      using assms(2) by (intro div_half_even_ge_iff) simp_all
    also have "\<dots> \<longleftrightarrow> (2 ^ 1024 - 2 ^ 970) * b \<le> a"
      by simp
    finally show ?thesis .
  qed
qed

lemma bit_length_le:
  assumes "0 < n" "n < 2 ^ k"
  shows "bit_length n \<le> int k"
proof -
  from assms(2) have "real_of_int n < real_of_int (2 ^ k)" by (simp only: of_int_less_iff)
  then have "real_of_int n < 2 powi (int k)" by simp
  with bit_length_real(1) [OF assms(1)] have "(2::real) powi (bit_length n - 1) < 2 powi (int k)"
    by linarith
  then have "bit_length n - 1 < int k" by (simp only: powi2_less_iff)
  then show ?thesis by simp
qed

lemma round_nearest_exact:
  assumes "0 < n" "n < 2 ^ 53" "0 < b"
  shows "round_nearest (n * b) b = Finite (n * 2 ^ nat (53 - bit_length n)) (bit_length n - 53)"
proof -
  have nb: "0 < n * b" using assms by simp
  have x: "real_of_int (n * b) / real_of_int b = real_of_int n" using assms(3) by simp
  note B = floor_log2_bounds [OF nb assms(3), unfolded x]
  note A = bit_length_real [OF assms(1)]
  have "real_of_int n < 2 powi (bit_length n - 1 + 1)" using A(2) by simp
  then have ex: "floor_log2 (n * b) b = bit_length n - 1"
    by (rule powi_window_unique [OF B(1) B(2) A(1)])
  have l: "bit_length n \<le> 53" using bit_length_le [OF assms(1), of 53] assms(2) by simp
  have p: "1 \<le> bit_length n" using assms(1) by (rule bit_length_pos)
  have s: "max (floor_log2 (n * b) b - 52) (- 1074) = bit_length n - 53"
    using ex p by simp
  have n0: "nat (bit_length n - 53) = 0" using l by simp
  have n1: "nat (- (bit_length n - 53)) = nat (53 - bit_length n)" by simp
  have m: "div_half_even (n * b * 2 ^ nat (53 - bit_length n)) b = n * 2 ^ nat (53 - bit_length n)"
    using div_half_even_exact [OF assms(3), of "n * 2 ^ nat (53 - bit_length n)"]
    by (simp add: mult_ac)
  show ?thesis
    unfolding round_nearest_def Let_def s n0 n1 using l m by simp
qed

lemma float_of_int_exact:
  assumes "0 < n" "n < 2 ^ 53"
  shows "float_of_int n = Inr (Finite (n * 2 ^ nat (53 - bit_length n)) (bit_length n - 53))"
  using round_nearest_exact [OF assms, of 1] assms(1) by (simp add: float_of_int_def)

lemma int_of_float_exact:
  assumes "0 < n" "0 \<le> k"
  shows "int_of_float (Finite (n * 2 ^ nat k) (- k)) = Inr n"
  using assms by (cases "k = 0") (simp_all add: abs_mult)

lemma py_truediv_100_100: "py_truediv 100 100 = Inr (Finite (2 ^ 52) (- 52))"
  by code_simp

lemma covered_count_100:
  assumes "int n < 2 ^ 53"
  shows "covered_count 100 n = Inr (int n)"
proof (cases "n = 0")
  case True
  then show ?thesis
    by (simp add: covered_count_def py_truediv_100_100 float_of_int_def)
next
  case False
  define l where "l = bit_length (int n)"
  have n: "0 < int n" using False by simp
  have l: "l \<le> 53" unfolding l_def using bit_length_le [OF n, of 53] assms by simp
  have f: "float_of_int (int n) = Inr (Finite (int n * 2 ^ nat (53 - l)) (l - 53))"
    unfolding l_def by (rule float_of_int_exact [OF n assms])
  have e: "nat (- (- 52 + (l - 53))) = 52 + nat (53 - l)" "nat (- 52 + (l - 53)) = 0"
    using l by simp_all
  have m: "2 ^ 52 * (int n * 2 ^ nat (53 - l)) = int n * 2 ^ (52 + nat (53 - l))"
    by (simp add: power_add)
  have r: "round_nearest (int n * 2 ^ (52 + nat (53 - l))) (2 ^ (52 + nat (53 - l)))
           = Finite (int n * 2 ^ nat (53 - l)) (l - 53)"
    unfolding l_def by (rule round_nearest_exact [OF n assms]) simp
  have mul: "float_mul (Finite (2 ^ 52) (- 52)) (Finite (int n * 2 ^ nat (53 - l)) (l - 53))
             = Finite (int n * 2 ^ nat (53 - l)) (l - 53)"
    using n by (simp only: float_mul.simps Let_def e m) (simp add: r abs_mult sgn_mult)
  have i: "int_of_float (Finite (int n * 2 ^ nat (53 - l)) (l - 53)) = Inr (int n)"
    using int_of_float_exact [OF n, of "53 - l"] l by simp
  show ?thesis
    unfolding covered_count_def py_truediv_100_100 f
    by (simp only: sum.case mul i)
qed

lemma float_of_int_finite:
  assumes "0 \<le> n" "n < 2 ^ 1024 - 2 ^ 970"
  shows "\<exists>m e. float_of_int n = Inr (Finite m e) \<and> 0 \<le> m"
proof (cases "n = 0")
  case True
  then show ?thesis by (simp add: float_of_int_def)
next
  case False
  with assms have n: "0 < n" by simp
  have "round_nearest n 1 \<noteq> Infinity"
    using round_nearest_Infinity_iff [of n 1] n assms(2) by simp
  then obtain m e where r: "round_nearest n 1 = Finite m e"
    using round_nearest_not_NaN [of n 1] by (cases "round_nearest n 1") auto
  from round_nearest_nonneg [OF r] n have "0 \<le> m" by simp
  with r n show ?thesis by (simp add: float_of_int_def)
qed

lemma covered_count_0:
  assumes "int n < 2 ^ 1024 - 2 ^ 970"
  shows "covered_count 0 n = Inr 0"
proof -
  from float_of_int_finite [of "int n"] assms obtain m e where
    "float_of_int (int n) = Inr (Finite m e)" by auto
  then show ?thesis by (simp add: covered_count_def py_truediv_def)
qed

lemma py_truediv_100_cases:
  "py_truediv P 100 = Inl OverflowError \<and> 100 * (2 ^ 1024 - 2 ^ 970) \<le> \<bar>P\<bar>
   \<or> (\<exists>m e. py_truediv P 100 = Inr (Finite m e) \<and> \<bar>P\<bar> < 100 * (2 ^ 1024 - 2 ^ 970) \<and> (0 \<le> P \<longrightarrow> 0 \<le> m))"
proof (cases "P = 0")
  case True
  then show ?thesis by (simp add: py_truediv_def)
next
  case False
  then have P: "0 < \<bar>P\<bar>" by simp
  have iff: "round_nearest \<bar>P\<bar> 100 = Infinity \<longleftrightarrow> (2 ^ 1024 - 2 ^ 970) * 100 \<le> \<bar>P\<bar>"
    using P by (intro round_nearest_Infinity_iff) simp_all
  show ?thesis
  proof (cases "round_nearest \<bar>P\<bar> 100")
    case (Finite m e)
    from round_nearest_nonneg [OF Finite] have m: "0 \<le> m" by simp
    from Finite iff have "\<bar>P\<bar> < 100 * (2 ^ 1024 - 2 ^ 970)" by simp
    with Finite False m show ?thesis
      by (auto simp: py_truediv_def sgn_if)
  next
    case Infinity
    with iff have "100 * (2 ^ 1024 - 2 ^ 970) \<le> \<bar>P\<bar>" by simp
    with Infinity False show ?thesis by (simp add: py_truediv_def)
  next
    case NaN
    then show ?thesis using round_nearest_not_NaN by simp
  qed
qed

lemma covered_count_empty:
  "covered_count P 0 = (if \<bar>P\<bar> < 100 * (2 ^ 1024 - 2 ^ 970) then Inr 0 else Inl OverflowError)"
  using py_truediv_100_cases [of P]
  by (auto simp: covered_count_def float_of_int_def)





lemma div_half_even_le:
  assumes "0 \<le> a" "0 < b"
  shows "real_of_int (div_half_even a b) \<le> real_of_int a / real_of_int b + 1"
proof -
  have "div_half_even a b \<le> a div b + 1"
    by (simp add: div_half_even_def Let_def)
  then have "real_of_int (div_half_even a b) \<le> real_of_int (a div b) + 1"
    by linarith
  moreover have "real_of_int (a div b) \<le> real_of_int a / real_of_int b"
    by (rule real_of_int_div4)
  ultimately show ?thesis by linarith
qed

lemma round_nearest_valof_le:
  assumes "0 < a" "0 < b" "round_nearest a b = Finite m e"
  shows "real_of_int m * 2 powi e \<le> 2 * (real_of_int a / real_of_int b) + 1"
proof -
  define x where "x = real_of_int a / real_of_int b"
  define ex where "ex = floor_log2 a b"
  define s where "s = max (ex - 52) (- 1074)"
  have xpos: "0 < x" using assms by (simp add: x_def)
  note B = floor_log2_bounds [OF assms(1,2), folded ex_def x_def]
  from assms(3) have m: "m = div_half_even (a * 2 ^ nat (- s)) (b * 2 ^ nat s)" and e: "e = s"
    by (auto simp: round_nearest_def Let_def ex_def s_def split: if_splits)
  have "real_of_int m \<le> real_of_int (a * 2 ^ nat (- s)) / real_of_int (b * 2 ^ nat s) + 1"
    unfolding m using assms(1,2) by (intro div_half_even_le) simp_all
  also have "\<dots> = x * 2 powi (- s) + 1"
    unfolding x_def by (simp only: scaled_quotient [OF assms(2)])
  finally have "real_of_int m * 2 powi s \<le> (x * 2 powi (- s) + 1) * 2 powi s"
    by (intro mult_right_mono) simp_all
  also have "\<dots> = x + 2 powi s"
    by (simp add: algebra_simps power_int_minus)
  also have "2 powi s \<le> x + 1"
  proof (cases "ex - 52 \<le> - 1074")
    case True
    then have "s = - 1074" by (simp add: s_def)
    then have "(2::real) powi s \<le> 1" by (simp add: power_int_minus field_simps)
    with xpos show ?thesis by linarith
  next
    case False
    then have "s = ex - 52" by (simp add: s_def)
    then have "(2::real) powi s \<le> 2 powi ex" by (intro power_int_increasing) simp_all
    with B(1) show ?thesis by linarith
  qed
  finally show ?thesis unfolding e x_def by linarith
qed

lemma float_mul_finite:
  assumes "\<bar>real_of_int m1 * 2 powi e1\<bar> * \<bar>real_of_int m2 * 2 powi e2\<bar> < 2 powi 1023"
  shows "\<exists>m e. float_mul (Finite m1 e1) (Finite m2 e2) = Finite m e"
proof (cases "m1 * m2 = 0")
  case True
  then show ?thesis by simp
next
  case False
  define a where "a = \<bar>m1 * m2\<bar> * 2 ^ nat (e1 + e2)"
  define b :: int where "b = 2 ^ nat (- (e1 + e2))"
  have a: "0 < a" using False by (simp add: a_def)
  have b: "0 < b" by (simp add: b_def)
  have "real_of_int a / real_of_int b
        = real_of_int (\<bar>m1 * m2\<bar> * 2 ^ nat (- (- (e1 + e2)))) / real_of_int (1 * 2 ^ nat (- (e1 + e2)))"
    by (simp add: a_def b_def add_ac)
  also have "\<dots> = (real_of_int \<bar>m1 * m2\<bar> / real_of_int 1) * 2 powi (- (- (e1 + e2)))"
    by (rule scaled_quotient) simp
  also have "\<dots> = \<bar>real_of_int m1 * 2 powi e1\<bar> * \<bar>real_of_int m2 * 2 powi e2\<bar>"
    by (simp add: abs_mult power_int_add)
  finally have "real_of_int a / real_of_int b < 2 powi 1023" using assms by simp
  moreover have "(2::real) powi 1023 \<le> real_of_int (2 ^ 1024 - 2 ^ 970)" by simp
  ultimately have "\<not> real_of_int (2 ^ 1024 - 2 ^ 970) \<le> real_of_int a / real_of_int b"
    by linarith
  then have "\<not> (2 ^ 1024 - 2 ^ 970) * b \<le> a"
    using ratio_le_iff [OF b, of "2 ^ 1024 - 2 ^ 970" a] by blast
  then have "round_nearest a b \<noteq> Infinity"
    using round_nearest_Infinity_iff [OF a b] by blast
  then obtain m' e' where "round_nearest a b = Finite m' e'"
    using round_nearest_not_NaN [of a b] by (cases "round_nearest a b") auto
  with False show ?thesis by (simp add: Let_def a_def b_def)
qed

lemma py_truediv_100_valof:
  assumes "py_truediv P 100 = Inr (Finite m e)"
  shows "\<bar>real_of_int m * 2 powi e\<bar> \<le> 2 * (real_of_int \<bar>P\<bar> / 100) + 1"
proof (cases "P = 0")
  case True
  with assms show ?thesis by (simp add: py_truediv_def)
next
  case False
  then have P: "0 < \<bar>P\<bar>" by simp
  from assms False obtain m' where r: "round_nearest \<bar>P\<bar> 100 = Finite m' e"
    and m: "m = sgn P * m'"
    by (auto simp: py_truediv_def split: double.splits)
  from round_nearest_nonneg [OF r] have m': "0 \<le> m'" by simp
  from round_nearest_valof_le [OF P _ r]
  have "real_of_int m' * 2 powi e \<le> 2 * (real_of_int \<bar>P\<bar> / 100) + 1" by simp
  moreover have "\<bar>real_of_int m * 2 powi e\<bar> = real_of_int m' * 2 powi e"
    using m' False by (simp add: m abs_mult sgn_if)
  ultimately show ?thesis by simp
qed

lemma float_of_int_valof:
  assumes "0 < n" "n < 2 ^ 53"
  shows "\<exists>m e. float_of_int n = Inr (Finite m e) \<and> real_of_int m * 2 powi e = real_of_int n"
proof -
  have l: "bit_length n \<le> 53" using bit_length_le [OF assms(1), of 53] assms(2) by simp
  have "real_of_int (n * 2 ^ nat (53 - bit_length n)) * 2 powi (bit_length n - 53) = real_of_int n"
  proof -
    have "(2::real) ^ nat (53 - bit_length n) = 2 powi (53 - bit_length n)"
      using l by (simp add: power_int_nonneg_exp)
    then have "real_of_int (n * 2 ^ nat (53 - bit_length n)) * 2 powi (bit_length n - 53)
          = real_of_int n * (2 powi (53 - bit_length n) * 2 powi (bit_length n - 53))"
      by simp
    also have "2 powi (53 - bit_length n) * 2 powi (bit_length n - 53) = (1::real)"
      by (simp add: power_int_add [symmetric])
    finally show ?thesis by simp
  qed
  with float_of_int_exact [OF assms] show ?thesis by blast
qed

lemma covered_count_returns:
  assumes "\<bar>P\<bar> \<le> 10 ^ 100" "int n < 2 ^ 53"
  shows "\<exists>k. covered_count P n = Inr k"
proof (cases "n = 0")
  case True
  with assms(1) show ?thesis by (simp add: covered_count_empty)
next
  case False
  then have n: "0 < int n" by simp
  from float_of_int_valof [OF n assms(2)] obtain m2 e2 where
    t: "float_of_int (int n) = Inr (Finite m2 e2)" and
    tv: "real_of_int m2 * 2 powi e2 = real n" by auto
  from py_truediv_100_cases [of P] assms(1) obtain m1 e1 where
    r: "py_truediv P 100 = Inr (Finite m1 e1)" by auto
  have P: "real_of_int \<bar>P\<bar> \<le> 10 ^ 100"
    using assms(1) by (metis of_int_le_iff of_int_numeral of_int_power)
  have N: "real n < 2 ^ 53"
    using assms(2) by (metis of_int_less_iff of_int_numeral of_int_power of_int_of_nat_eq)
  from py_truediv_100_valof [OF r] P
  have b1: "\<bar>real_of_int m1 * 2 powi e1\<bar> \<le> 2 * 10 ^ 98 + 1" by simp
  have "\<bar>real_of_int m1 * 2 powi e1\<bar> * \<bar>real_of_int m2 * 2 powi e2\<bar> \<le> (2 * 10 ^ 98 + 1) * 2 ^ 53"
    unfolding tv using b1 N by (intro mult_mono) simp_all
  also have "\<dots> < (2::real) powi 1023" by simp
  finally obtain m e where "float_mul (Finite m1 e1) (Finite m2 e2) = Finite m e"
    using float_mul_finite by blast
  with r t show ?thesis by (simp add: covered_count_def)
qed

section \<open>Properties of the shuffle and of slices\<close>

lemma shuffle_from_mset:
  "shuffle_from R i x g = Inr (y, g') \<Longrightarrow> mset y = mset x"
proof (induction i arbitrary: x g)
  case 0
  then show ?case by simp
next
  case (Suc i)
  obtain j g1 where rb: "randbelow R g (Suc i + 1) = (j, g1)"
    by (cases "randbelow R g (Suc i + 1)")
  from Suc.prems rb have inr: "j < length x" "Suc i < length x"
    and rec: "shuffle_from R i (x[Suc i := x ! j, j := x ! Suc i]) g1 = Inr (y, g')"
    by (auto split: if_splits)
  from Suc.IH [OF rec] have "mset y = mset (x[Suc i := x ! j, j := x ! Suc i])" .
  also have "\<dots> = mset x"
    using inr by (simp add: mset_swap)
  finally show ?case .
qed

lemma shuffle_mset: "shuffle R x g = Inr (y, g') \<Longrightarrow> mset y = mset x"
  unfolding shuffle_def by (rule shuffle_from_mset)

lemma shuffle_from_returns:
  "randbelow_in_range R \<Longrightarrow> i < length x \<or> i = 0 \<Longrightarrow> \<exists>y g'. shuffle_from R i x g = Inr (y, g')"
proof (induction i arbitrary: x g)
  case 0
  then show ?case by simp
next
  case (Suc i)
  obtain j g1 where rb: "randbelow R g (Suc i + 1) = (j, g1)"
    by (cases "randbelow R g (Suc i + 1)")
  from Suc.prems(1) have "fst (randbelow R g (Suc i + 1)) < Suc i + 1"
    unfolding randbelow_in_range_def by simp
  with rb Suc.prems(2) have inr: "j < length x" "Suc i < length x" by auto
  have "i < length (x[Suc i := x ! j, j := x ! Suc i]) \<or> i = 0"
    using inr by simp
  from Suc.IH [OF Suc.prems(1) this, of g1] rb inr show ?case by simp
qed

lemma shuffle_returns:
  assumes "randbelow_in_range R"
  shows "\<exists>y g'. shuffle R x g = Inr (y, g')"
proof -
  have "length x - 1 < length x \<or> length x - 1 = 0" by (cases x) simp_all
  from shuffle_from_returns [OF assms this] show ?thesis by (simp add: shuffle_def)
qed

lemma sample_random_in_range: "randbelow_in_range sample_random"
  by (simp add: randbelow_in_range_def sample_random_def)

lemma slice_append: "slice_to xs k @ slice_from xs k = xs"
  by (simp add: slice_to_def slice_from_def)


lemma calculate_coverage_InrD:
  assumes "calculate_coverage R utcnow E P g = Inr (r, g')"
  obtains k shuffled where
    "covered_count P (length E) = Inr k"
    "shuffle R E (seed R 42) = Inr (shuffled, g')"
    "r = \<lparr>coverage_percentage = P, total_endpoints = length E,
          covered_endpoints = slice_to shuffled k,
          uncovered_endpoints = slice_from shuffled k,
          timestamp = utcnow @ ''Z''\<rparr>"
  using assms unfolding calculate_coverage_def
  by (auto split: sum.splits)

lemma calculate_coverage_returns:
  assumes "randbelow_in_range R" "covered_count P (length E) = Inr k"
  obtains shuffled g' where
    "shuffle R E (seed R 42) = Inr (shuffled, g')"
    "calculate_coverage R utcnow E P g =
       Inr (\<lparr>coverage_percentage = P, total_endpoints = length E,
             covered_endpoints = slice_to shuffled k,
             uncovered_endpoints = slice_from shuffled k,
             timestamp = utcnow @ ''Z''\<rparr>, g')"
    "length shuffled = length E"
proof -
  from shuffle_returns [OF assms(1), of E "seed R 42"] obtain shuffled g' where
    sh: "shuffle R E (seed R 42) = Inr (shuffled, g')" by blast
  from shuffle_mset [OF sh] have "length shuffled = length E" by (rule mset_eq_length)
  with sh assms(2) that show ?thesis by (simp add: calculate_coverage_def)
qed

lemma calculate_coverage_total:
  assumes "randbelow_in_range R" "\<bar>P\<bar> \<le> 10 ^ 100" "int (length E) < 2 ^ 53"
  shows "\<exists>r g'. calculate_coverage R utcnow E P g = Inr (r, g')"
proof -
  from covered_count_returns [OF assms(2,3)] obtain k where
    "covered_count P (length E) = Inr k" by blast
  from calculate_coverage_returns [OF assms(1) this, of utcnow g] show ?thesis by blast
qed

lemma sample_run:
  "calculate_coverage sample_random ''T'' sample_endpoints 71 7 =
     Inr (\<lparr>coverage_percentage = 71, total_endpoints = 4,
           covered_endpoints = [''/d'', ''/a''], uncovered_endpoints = [''/b'', ''/c''],
           timestamp = ''TZ''\<rparr>, 45)"
  by code_simp

lemma covered_count_29_100: "covered_count 29 100 = Inr 28"
  by code_simp

lemma length_hundred_endpoints: "length hundred_endpoints = 100"
  by (simp add: hundred_endpoints_def)


section \<open>The partition\<close>

text \<open>
  C2. The covered and the uncovered endpoints that \<open>calculate_coverage(E, P)\<close> returns
  partition \<open>E\<close>, whatever the percentage: as multisets they add up to \<open>E\<close>, the union
  of their sets is the set of \<open>E\<close>, their lengths add up to \<open>len(E)\<close>, and where \<open>E\<close> has
  no duplicates the two sets are disjoint. The call does return where the generator keeps
  the library's promise, \<open>\<bar>P\<bar> \<le> 10 ^ 100\<close> and the list is shorter than \<open>2 ^ 53\<close>.
\<close>

theorem calculate_coverage_partition:
  "(randbelow_in_range R \<and> \<bar>P\<bar> \<le> 10 ^ 100 \<and> int (length E) < 2 ^ 53 \<longrightarrow>
      (\<exists>r g'. calculate_coverage R utcnow E P g = Inr (r, g')))
   \<and> (\<forall>r g'. calculate_coverage R utcnow E P g = Inr (r, g') \<longrightarrow>
         mset (covered_endpoints r) + mset (uncovered_endpoints r) = mset E
       \<and> set (covered_endpoints r) \<union> set (uncovered_endpoints r) = set E
       \<and> (distinct E \<longrightarrow> set (covered_endpoints r) \<inter> set (uncovered_endpoints r) = {})
       \<and> length (covered_endpoints r) + length (uncovered_endpoints r) = length E)"
proof (intro conjI allI impI)
  assume "randbelow_in_range R \<and> \<bar>P\<bar> \<le> 10 ^ 100 \<and> int (length E) < 2 ^ 53"
  then show "\<exists>r g'. calculate_coverage R utcnow E P g = Inr (r, g')"
    by (intro calculate_coverage_total) simp_all
next
  fix r g'
  assume run: "calculate_coverage R utcnow E P g = Inr (r, g')"
  then obtain k shuffled where
    sh: "shuffle R E (seed R 42) = Inr (shuffled, g')" and
    r: "covered_endpoints r = slice_to shuffled k" "uncovered_endpoints r = slice_from shuffled k"
    by (auto elim!: calculate_coverage_InrD)
  have app: "covered_endpoints r @ uncovered_endpoints r = shuffled"
    by (simp add: r slice_append)
  have perm: "mset shuffled = mset E" by (rule shuffle_mset [OF sh])
  show "mset (covered_endpoints r) + mset (uncovered_endpoints r) = mset E"
    using perm app by (metis mset_append)
  show "set (covered_endpoints r) \<union> set (uncovered_endpoints r) = set E"
    using perm app by (metis set_append mset_eq_setD)
  show "length (covered_endpoints r) + length (uncovered_endpoints r) = length E"
    using perm app by (metis length_append mset_eq_length)
  show "set (covered_endpoints r) \<inter> set (uncovered_endpoints r) = {}" if "distinct E"
  proof -
    from that perm have "distinct shuffled" by (metis mset_eq_imp_distinct_iff)
    with app show ?thesis by (metis distinct_append)
  qed
qed

theorem calculate_coverage_partition_witness:
  "randbelow_in_range sample_random \<and> \<bar>71 :: int\<bar> \<le> 10 ^ 100
   \<and> int (length sample_endpoints) < 2 ^ 53
   \<and> calculate_coverage sample_random ''T'' sample_endpoints 71 7 =
     Inr (\<lparr>coverage_percentage = 71, total_endpoints = 4,
           covered_endpoints = [''/d'', ''/a''], uncovered_endpoints = [''/b'', ''/c''],
           timestamp = ''TZ''\<rparr>, 45)
   \<and> mset [''/d'', ''/a''] + mset [''/b'', ''/c''] = mset sample_endpoints
   \<and> set [''/d'', ''/a''] \<union> set [''/b'', ''/c''] = set sample_endpoints
   \<and> distinct sample_endpoints
   \<and> set [''/d'', ''/a''] \<inter> set [''/b'', ''/c''] = ({} :: string set)
   \<and> length [''/d'', ''/a''] + length [''/b'', ''/c''] = length sample_endpoints"
proof -
  have pre: "randbelow_in_range sample_random \<and> \<bar>71 :: int\<bar> \<le> 10 ^ 100
      \<and> int (length sample_endpoints) < 2 ^ 53"
    by (simp add: sample_random_in_range sample_endpoints_def)
  have run: "calculate_coverage sample_random ''T'' sample_endpoints 71 7 =
     Inr (\<lparr>coverage_percentage = 71, total_endpoints = 4,
           covered_endpoints = [''/d'', ''/a''], uncovered_endpoints = [''/b'', ''/c''],
           timestamp = ''TZ''\<rparr>, 45)"
    by (rule sample_run)
  have dist: "distinct sample_endpoints"
    by (simp add: sample_endpoints_def)
  from calculate_coverage_partition [of sample_random 71 sample_endpoints "''T''" 7] run dist
  have "mset [''/d'', ''/a''] + mset [''/b'', ''/c''] = mset sample_endpoints
   \<and> set [''/d'', ''/a''] \<union> set [''/b'', ''/c''] = set sample_endpoints
   \<and> set [''/d'', ''/a''] \<inter> set [''/b'', ''/c''] = ({} :: string set)
   \<and> length [''/d'', ''/a''] + length [''/b'', ''/c''] = length sample_endpoints"
    by fastforce
  with pre run dist show ?thesis by blast
qed

text \<open>
  C3. The covered and the uncovered endpoints, in their order, and the state the
  generator is left in do not depend on the state of the generator before the call nor
  on the clock: the shuffle starts from \<open>seed 42\<close> in every call. Two calls on the same
  \<open>E\<close> and \<open>P\<close> therefore agree, also where they raise.
\<close>

theorem calculate_coverage_deterministic:
  "map_sum id (\<lambda>(r, s). (covered_endpoints r, uncovered_endpoints r, s))
     (calculate_coverage R t1 E P g1)
   = map_sum id (\<lambda>(r, s). (covered_endpoints r, uncovered_endpoints r, s))
     (calculate_coverage R t2 E P g2)"
  unfolding calculate_coverage_def
  by (auto split: sum.splits)

section \<open>The covered count\<close>

text \<open>
  C1. The claim gives the number of covered endpoints as \<open>floor(len(E) * P / 100)\<close> over
  exact arithmetic. The code computes \<open>int((P / 100) * len(E))\<close> in binary64, and the two
  differ: for any list of 100 endpoints and \<open>P = 29\<close> the quotient \<open>29 / 100\<close> rounds
  below \<open>0.29\<close>, the product rounds to \<open>28.999999999999996\<close>, and 28 endpoints are
  covered where the exact formula gives 29.
\<close>

theorem calculate_coverage_29_of_100:
  assumes "randbelow_in_range R" "length E = 100"
  shows "\<exists>r g'. calculate_coverage R utcnow E 29 g = Inr (r, g')
           \<and> length (covered_endpoints r) = 28
           \<and> exact_covered_count 29 (length E) = 29"
proof -
  from assms(2) covered_count_29_100 have "covered_count 29 (length E) = Inr 28" by simp
  from calculate_coverage_returns [OF assms(1) this, of utcnow g] obtain shuffled g' where
    run: "calculate_coverage R utcnow E 29 g =
       Inr (\<lparr>coverage_percentage = 29, total_endpoints = length E,
             covered_endpoints = slice_to shuffled 28,
             uncovered_endpoints = slice_from shuffled 28,
             timestamp = utcnow @ ''Z''\<rparr>, g')"
    and len: "length shuffled = length E" by blast
  have "length (slice_to shuffled 28) = 28"
    using len assms(2) by (simp add: slice_to_def slice_index_def)
  with run assms(2) show ?thesis by (simp add: exact_covered_count_def)
qed

theorem calculate_coverage_29_of_100_witness:
  "randbelow_in_range sample_random \<and> length hundred_endpoints = 100
   \<and> (\<exists>r g'. calculate_coverage sample_random ''T'' hundred_endpoints 29 0 = Inr (r, g')
           \<and> length (covered_endpoints r) = 28
           \<and> exact_covered_count 29 (length hundred_endpoints) = 29)"
  using calculate_coverage_29_of_100 [OF sample_random_in_range length_hundred_endpoints, of "''T''" 0]
    sample_random_in_range length_hundred_endpoints
  by blast

text \<open>
  C5. On the empty list the call returns without an error, whatever state the generator
  is in: \<open>total_endpoints = 0\<close> and both lists are empty. The count is the float
  \<open>P / 100\<close> times \<open>0.0\<close>, and nothing is divided by zero. This holds for every
  percentage in \<open>[0, 100]\<close>, and beyond it for every int \<open>P\<close> whose quotient by \<open>100\<close> is
  a float, \<open>\<bar>P\<bar> < 100 * (2 ^ 1024 - 2 ^ 970)\<close>.
\<close>

theorem calculate_coverage_empty:
  assumes "\<bar>P\<bar> < 100 * (2 ^ 1024 - 2 ^ 970)"
  shows "calculate_coverage R utcnow [] P g =
     Inr (\<lparr>coverage_percentage = P, total_endpoints = 0,
           covered_endpoints = [], uncovered_endpoints = [],
           timestamp = utcnow @ ''Z''\<rparr>, seed R 42)"
  using assms
  by (simp add: calculate_coverage_def covered_count_empty shuffle_def slice_to_def slice_from_def)

theorem calculate_coverage_empty_witness:
  "\<bar>100 :: int\<bar> < 100 * (2 ^ 1024 - 2 ^ 970)
   \<and> calculate_coverage sample_random ''T'' ([] :: string list) 100 7 =
       Inr (\<lparr>coverage_percentage = 100, total_endpoints = 0,
             covered_endpoints = [], uncovered_endpoints = [],
             timestamp = ''TZ''\<rparr>, 42)"
proof -
  have h: "\<bar>100 :: int\<bar> < 100 * (2 ^ 1024 - 2 ^ 970)" by simp
  from calculate_coverage_empty [OF h, of sample_random "''T''" 7] h show ?thesis
    by (simp add: sample_random_def)
qed

text \<open>
  C6. With percentage \<open>0\<close> the covered list is empty and the uncovered list is the whole
  shuffled list; with percentage \<open>100\<close> it is the other way round. The list is shorter
  than \<open>2 ^ 53\<close> elements, so that its length is a float (a list in memory is far
  shorter), and the generator keeps the library's promise.
\<close>

theorem calculate_coverage_0_and_100:
  assumes "randbelow_in_range R" "int (length E) < 2 ^ 53"
  shows "\<exists>shuffled g'. shuffle R E (seed R 42) = Inr (shuffled, g')
     \<and> (\<exists>r. calculate_coverage R utcnow E 0 g = Inr (r, g')
            \<and> covered_endpoints r = [] \<and> uncovered_endpoints r = shuffled)
     \<and> (\<exists>r. calculate_coverage R utcnow E 100 g = Inr (r, g')
            \<and> covered_endpoints r = shuffled \<and> uncovered_endpoints r = [])"
proof -
  have c0: "covered_count 0 (length E) = Inr 0"
    using assms(2) by (intro covered_count_0) simp
  have c100: "covered_count 100 (length E) = Inr (int (length E))"
    using assms(2) by (rule covered_count_100)
  from calculate_coverage_returns [OF assms(1) c0, of utcnow g] obtain s0 g0 where
    sh0: "shuffle R E (seed R 42) = Inr (s0, g0)" and
    run0: "calculate_coverage R utcnow E 0 g =
       Inr (\<lparr>coverage_percentage = 0, total_endpoints = length E,
             covered_endpoints = slice_to s0 0, uncovered_endpoints = slice_from s0 0,
             timestamp = utcnow @ ''Z''\<rparr>, g0)" and
    len: "length s0 = length E" by blast
  from calculate_coverage_returns [OF assms(1) c100, of utcnow g] sh0 have
    run100: "calculate_coverage R utcnow E 100 g =
       Inr (\<lparr>coverage_percentage = 100, total_endpoints = length E,
             covered_endpoints = slice_to s0 (int (length E)),
             uncovered_endpoints = slice_from s0 (int (length E)),
             timestamp = utcnow @ ''Z''\<rparr>, g0)" by auto
  have z: "slice_to s0 0 = []" "slice_from s0 0 = s0"
    by (simp_all add: slice_to_def slice_from_def slice_index_def)
  have f: "slice_to s0 (int (length E)) = s0" "slice_from s0 (int (length E)) = []"
    using len by (simp_all add: slice_to_def slice_from_def slice_index_def)
  from sh0 run0 run100 z f show ?thesis by simp
qed

theorem calculate_coverage_0_and_100_witness:
  "randbelow_in_range sample_random \<and> int (length sample_endpoints) < 2 ^ 53
   \<and> (\<exists>shuffled g'. shuffle sample_random sample_endpoints (seed sample_random 42) = Inr (shuffled, g')
     \<and> (\<exists>r. calculate_coverage sample_random ''T'' sample_endpoints 0 7 = Inr (r, g')
            \<and> covered_endpoints r = [] \<and> uncovered_endpoints r = shuffled)
     \<and> (\<exists>r. calculate_coverage sample_random ''T'' sample_endpoints 100 7 = Inr (r, g')
            \<and> covered_endpoints r = shuffled \<and> uncovered_endpoints r = []))"
proof -
  have len: "int (length sample_endpoints) < 2 ^ 53"
    by (simp add: sample_endpoints_def)
  from calculate_coverage_0_and_100 [OF sample_random_in_range len, of "''T''" 7]
    sample_random_in_range len
  show ?thesis by blast
qed




section \<open>The loader and the driver\<close>

lemma parse_openapi_yaml_frame:
  "parse_openapi_yaml p w = Inr (endpoints, w1) \<Longrightarrow>
     written w1 = written w \<and> made_dirs w1 = made_dirs w"
  by (auto simp: parse_openapi_yaml_def print_def split: option.splits sum.splits)

text \<open>
  C8. Each of the three causes (no file, a parse failure, a mapping without \<open>paths\<close> or
  with an empty \<open>paths\<close>) makes the loader return the empty list. Whenever the loader
  returns the empty list, \<open>main\<close> returns normally: it prints the failure notice after
  what the loader printed, writes no file and makes no directory.
\<close>

theorem main_no_endpoints:
  "((files w (yaml_file_path w) = None
      \<or> (\<exists>exc. files w (yaml_file_path w) = Some (Inl exc))
      \<or> (\<exists>kvs. files w (yaml_file_path w) = Some (Inr (YDict kvs))
              \<and> (map_of kvs ''paths'' = None \<or> map_of kvs ''paths'' = Some (YDict []))))
     \<longrightarrow> (\<exists>w1. parse_openapi_yaml (yaml_file_path w) w = Inr ([], w1)))
   \<and> (\<forall>w1. parse_openapi_yaml (yaml_file_path w) w = Inr ([], w1) \<longrightarrow>
         (\<exists>w'. main R utcnow g w = Inr (w', g)
            \<and> stdout w' = stdout w1 @ [no_endpoints_notice]
            \<and> written w' = written w \<and> made_dirs w' = made_dirs w))"
proof (intro conjI impI allI)
  assume "files w (yaml_file_path w) = None
      \<or> (\<exists>exc. files w (yaml_file_path w) = Some (Inl exc))
      \<or> (\<exists>kvs. files w (yaml_file_path w) = Some (Inr (YDict kvs))
              \<and> (map_of kvs ''paths'' = None \<or> map_of kvs ''paths'' = Some (YDict [])))"
  then show "\<exists>w1. parse_openapi_yaml (yaml_file_path w) w = Inr ([], w1)"
    by (auto simp: parse_openapi_yaml_def)
next
  fix w1
  assume p: "parse_openapi_yaml (yaml_file_path w) w = Inr ([], w1)"
  from parse_openapi_yaml_frame [OF p] have fr: "written w1 = written w" "made_dirs w1 = made_dirs w"
    by simp_all
  have "main R utcnow g w = Inr (print no_endpoints_notice w1, g)"
    using p by (simp add: main_def yaml_file_path_def no_endpoints_notice_def)
  with fr show "\<exists>w'. main R utcnow g w = Inr (w', g)
            \<and> stdout w' = stdout w1 @ [no_endpoints_notice]
            \<and> written w' = written w \<and> made_dirs w' = made_dirs w"
    by (simp add: print_def)
qed

theorem main_no_endpoints_witness:
  "files missing_file_world (yaml_file_path missing_file_world) = None
   \<and> parse_openapi_yaml (yaml_file_path missing_file_world) missing_file_world =
       Inr ([], print ''YAML file not found at path: /proj/api_spec.yaml'' missing_file_world)
   \<and> (\<exists>w'. main sample_random ''T'' 7 missing_file_world = Inr (w', 7)
         \<and> stdout w' = [''YAML file not found at path: /proj/api_spec.yaml'', no_endpoints_notice]
         \<and> written w' = [] \<and> made_dirs w' = [])"
proof -
  have f: "files missing_file_world (yaml_file_path missing_file_world) = None"
    by (simp add: missing_file_world_def)
  have p: "parse_openapi_yaml (yaml_file_path missing_file_world) missing_file_world =
       Inr ([], print ''YAML file not found at path: /proj/api_spec.yaml'' missing_file_world)"
    by (simp add: parse_openapi_yaml_def missing_file_world_def yaml_file_path_def path_join_def)
  from main_no_endpoints [of missing_file_world sample_random "''T''" 7] p
  have "\<exists>w'. main sample_random ''T'' 7 missing_file_world = Inr (w', 7)
         \<and> stdout w' = stdout (print ''YAML file not found at path: /proj/api_spec.yaml'' missing_file_world) @ [no_endpoints_notice]
         \<and> written w' = written missing_file_world \<and> made_dirs w' = made_dirs missing_file_world"
    by blast
  with f p show ?thesis by (simp add: print_def missing_file_world_def)
qed

text \<open>
  C4. The claim says a file that exists and parses, but holds no \<open>paths\<close> key, yields the
  empty list without an error. An empty \<open>api_spec.yaml\<close> is such a file: it parses to
  \<open>None\<close>, \<open>openapi_spec.get\<close> raises \<open>AttributeError\<close>, and the exception ends the run.
\<close>

theorem parse_openapi_yaml_empty_document:
  "files empty_file_world (yaml_file_path empty_file_world) = Some (Inr YNone)
   \<and> parse_openapi_yaml (yaml_file_path empty_file_world) empty_file_world = Inl AttributeError
   \<and> main sample_random ''T'' 7 empty_file_world = Inl AttributeError"
  by (simp add: empty_file_world_def yaml_file_path_def path_join_def parse_openapi_yaml_def main_def)

section \<open>The HTML report\<close>

lemma sublist_join_lines: "l \<in> set ls \<Longrightarrow> sublist l (join_lines ls)"
proof (induction ls rule: join_lines.induct)
  case 1
  then show ?case by simp
next
  case (2 l')
  then show ?case by simp
next
  case (3 l' v va)
  show ?case
  proof (cases "l = l'")
    case True
    then show ?thesis by simp
  next
    case False
    with 3 have "sublist l (join_lines (v # va))" by simp
    then obtain ps ss where "join_lines (v # va) = ps @ l @ ss" by (auto simp: sublist_def)
    then have "join_lines (l' # v # va) = (l' @ newline # ps) @ l @ ss" by simp
    then show ?thesis unfolding sublist_def by blast
  qed
qed

lemma sublist_concat_map: "x \<in> set xs \<Longrightarrow> sublist (f x) (concat (map f xs))"
proof -
  assume "x \<in> set xs"
  then obtain ys zs where "xs = ys @ x # zs" by (auto simp: in_set_conv_decomp)
  then have "concat (map f xs) = concat (map f ys) @ f x @ concat (map f zs)" by simp
  then show ?thesis unfolding sublist_def by blast
qed

lemma sublist_trans': "sublist xs ys \<Longrightarrow> sublist ys zs \<Longrightarrow> sublist xs zs"
  by (rule sublist_order.order_trans)

lemma covered_item_verbatim:
  assumes "ep \<in> set (covered_endpoints coverage_data)"
  shows \<open>sublist (''<li class="covered">'' @ ep @ ''</li>'') (html_content coverage_data)\<close>
proof -
  have 1: \<open>sublist (''<li class="covered">'' @ ep @ ''</li>'')
             (covered_items (covered_endpoints coverage_data))\<close>
    unfolding covered_items_def by (rule sublist_concat_map [OF assms])
  have 2: "sublist (covered_items (covered_endpoints coverage_data))
             (''                        '' @ covered_items (covered_endpoints coverage_data))"
    by (rule sublist_append_leftI)
  have 3: "sublist (''                        '' @ covered_items (covered_endpoints coverage_data))
             (html_content coverage_data)"
    unfolding html_content_def by (rule sublist_join_lines) simp
  from 1 2 3 show ?thesis
    by (blast intro: sublist_trans')
qed

lemma uncovered_item_verbatim:
  assumes "ep \<in> set (uncovered_endpoints coverage_data)"
  shows \<open>sublist (''<li class="uncovered">'' @ ep @ ''</li>'') (html_content coverage_data)\<close>
proof -
  have 1: \<open>sublist (''<li class="uncovered">'' @ ep @ ''</li>'')
             (uncovered_items (uncovered_endpoints coverage_data))\<close>
    unfolding uncovered_items_def by (rule sublist_concat_map [OF assms])
  have 2: "sublist (uncovered_items (uncovered_endpoints coverage_data))
             (''                        '' @ uncovered_items (uncovered_endpoints coverage_data))"
    by (rule sublist_append_leftI)
  have 3: "sublist (''                        '' @ uncovered_items (uncovered_endpoints coverage_data))
             (html_content coverage_data)"
    unfolding html_content_def by (rule sublist_join_lines) simp
  from 1 2 3 show ?thesis
    by (blast intro: sublist_trans')
qed

lemma set_join_lines: "set (join_lines ls) \<subseteq> insert newline (\<Union> (set ` set ls))"
  by (induction ls rule: join_lines.induct) auto

lemma markup_report_numbers: "str_int 71 = ''71''" "str_int 2 = ''2''" "str_int 1 = ''1''"
  by code_simp+

lemma markup_report_no_ampersand: "CHR ''&'' \<notin> set (html_content markup_report)"
proof -
  have "set (html_content markup_report) \<subseteq> - {CHR ''&''}"
    unfolding html_content_def
    by (rule order_trans [OF set_join_lines])
       (simp add: markup_report_def markup_report_numbers covered_items_def uncovered_items_def
          newline_def)
  then show ?thesis by blast
qed

lemma html_content_verbatim:
  \<open>(\<forall>ep \<in> set (covered_endpoints coverage_data).
       sublist (''<li class="covered">'' @ ep @ ''</li>'') (html_content coverage_data))
   \<and> (\<forall>ep \<in> set (uncovered_endpoints coverage_data).
       sublist (''<li class="uncovered">'' @ ep @ ''</li>'') (html_content coverage_data))\<close>
  by (blast intro: covered_item_verbatim uncovered_item_verbatim)

text \<open>
  C10. The HTML emitter is to insert an endpoint identifier as text, with the characters
  that have a special meaning in the markup escaped. It inserts the identifier as it is:
  for the covered endpoint \<open>/<b>\<close> the document holds the list item
  \<open><li class="covered">/<b></li>\<close>, whose \<open><b>\<close> opens an element that is never closed,
  and the escaped item with \<open>/&lt;b&gt;\<close> does not occur in the document.
\<close>

theorem html_content_markup_unescaped:
  \<open>sublist ''<li class="covered">/<b></li>'' (html_content markup_report)
   \<and> escape ''/<b>'' = ''/&lt;b&gt;''
   \<and> \<not> sublist (''<li class="covered">'' @ escape ''/<b>'' @ ''</li>'') (html_content markup_report)\<close>
proof -
  have "''/<b>'' \<in> set (covered_endpoints markup_report)"
    by (simp add: markup_report_def)
  from covered_item_verbatim [OF this]
  have raw: \<open>sublist ''<li class="covered">/<b></li>'' (html_content markup_report)\<close> by simp
  have esc: "escape ''/<b>'' = ''/&lt;b&gt;''"
    by (simp add: escape_def escape_char_def)
  have \<open>\<not> sublist (''<li class="covered">'' @ ''/&lt;b&gt;'' @ ''</li>'') (html_content markup_report)\<close>
  proof
    assume \<open>sublist (''<li class="covered">'' @ ''/&lt;b&gt;'' @ ''</li>'') (html_content markup_report)\<close>
    then have \<open>set (''<li class="covered">'' @ ''/&lt;b&gt;'' @ ''</li>'') \<subseteq> set (html_content markup_report)\<close>
      by (rule set_mono_sublist)
    then have "CHR ''&'' \<in> set (html_content markup_report)" by simp
    with markup_report_no_ampersand show False by simp
  qed
  with raw esc show ?thesis by simp
qed

end
